theory Spec2Isabelle
  imports Main "HOL-Library.Word"
begin

unbundle bit_operations_syntax

section \<open>Data model\<close>

text \<open>
  The target is a 32-bit nRF52 (Cortex-M4): \<^verbatim>\<open>uintptr_t\<close>, \<^verbatim>\<open>size_t\<close> and
  \<^verbatim>\<open>uint32_t\<close> are 32-bit words whose arithmetic wraps around, \<^verbatim>\<open>uint8_t\<close>
  is an 8-bit word.
\<close>

type_synonym u8 = "8 word"
type_synonym u32 = "32 word"

text \<open>
  The constants that \<^verbatim>\<open>ram_retention_utils.c\<close> takes from outside the repository are
  parameters of the model: the devicetree entry of \<^verbatim>\<open>sram0\<close>
  (\<^verbatim>\<open>DT_REG_ADDR\<close>, \<^verbatim>\<open>DT_REG_SIZE\<close>) and the two bit-field constants of the nRF MDK
  (\<^verbatim>\<open>POWER_RAM_POWERSET_S0RETENTION_On\<close>, \<^verbatim>\<open>POWER_RAM_POWERSET_S0RETENTION_Pos\<close>).
\<close>

record platform =
  sram0_reg_addr :: u32
  sram0_reg_size :: u32
  S0RETENTION_On :: u32
  S0RETENTION_Pos :: u32

text \<open>
  The nRF52832 instance used for concrete evaluation: 64 KiB of RAM at \<open>0x20000000\<close>,
  retention bits at positions 16..31 of \<^verbatim>\<open>RAM[x].POWERSET\<close>.
\<close>

definition nrf52832 :: platform where
  "nrf52832 = \<lparr>sram0_reg_addr = 0x20000000, sram0_reg_size = 0x10000,
               S0RETENTION_On = 1, S0RETENTION_Pos = 16\<rparr>"

text \<open>The nRF52840 instance: 256 KiB of RAM, so the 9th block of large sections exists.\<close>

definition nrf52840 :: platform where
  "nrf52840 = \<lparr>sram0_reg_addr = 0x20000000, sram0_reg_size = 0x40000,
               S0RETENTION_On = 1, S0RETENTION_Pos = 16\<rparr>"

text \<open>
  The two HAL entry points \<^verbatim>\<open>nrf_power_rampower_mask_on\<close> and
  \<^verbatim>\<open>nrf_power_rampower_mask_off\<close> are the only effect of \<^verbatim>\<open>ram_range_retain\<close>
  on the hardware; the model records each call with its block index and section mask.
\<close>

datatype hw_call =
  nrf_power_rampower_mask_on u8 u32
| nrf_power_rampower_mask_off u8 u32

text \<open>An access outside the object a pointer refers to is undefined in C: an error value.\<close>

datatype error = Out_of_bounds

text \<open>The value of \<^verbatim>\<open>EINVAL\<close> in \<^verbatim>\<open>errno.h\<close>.\<close>

definition EINVAL :: int where
  "EINVAL = 22"

section \<open>RAM geometry (the macros of ram\_retention\_utils.c)\<close>

definition SRAM_BEGIN :: "platform \<Rightarrow> u32" where
  "SRAM_BEGIN p = sram0_reg_addr p"

definition SRAM_END :: "platform \<Rightarrow> u32" where
  "SRAM_END p = SRAM_BEGIN p + sram0_reg_size p"

definition SMALL_SECTION_SIZE :: u32 where
  "SMALL_SECTION_SIZE = 4096"

definition SMALL_SECTIONS_PER_BLOCK :: u32 where
  "SMALL_SECTIONS_PER_BLOCK = 2"

definition SMALL_BLOCK_SIZE :: u32 where
  "SMALL_BLOCK_SIZE = SMALL_SECTIONS_PER_BLOCK * SMALL_SECTION_SIZE"

definition SMALL_BLOCK_COUNT :: u32 where
  "SMALL_BLOCK_COUNT = 8"

definition SMALL_SECTION_SPAN :: u32 where
  "SMALL_SECTION_SPAN = SMALL_BLOCK_COUNT * SMALL_BLOCK_SIZE"

definition LARGE_SECTION_BEGIN :: "platform \<Rightarrow> u32" where
  "LARGE_SECTION_BEGIN p = SRAM_BEGIN p + SMALL_SECTION_SPAN"

definition LARGE_SECTION_SIZE :: u32 where
  "LARGE_SECTION_SIZE = 32768"

section \<open>ram\_range\_retain\<close>

text \<open>
  One pass through the body of the \<^verbatim>\<open>do ... while\<close> loop, up to the computation of
  \<^verbatim>\<open>section_mask\<close>: the block index, the mask and the section size that the address
  falls under. The locals \<^verbatim>\<open>block\<close>, \<^verbatim>\<open>block_base\<close>, \<^verbatim>\<open>section_size\<close> and
  \<^verbatim>\<open>sections_per_block\<close> take their small-block values unless \<^verbatim>\<open>is_large\<close>;
  \<open>block'\<close> and \<open>section'\<close> are \<^verbatim>\<open>block\<close> and \<^verbatim>\<open>section\<close> after the
  \<^verbatim>\<open>if (section >= sections_per_block)\<close> statement. \<^verbatim>\<open>block\<close> is a
  \<^verbatim>\<open>uint8_t\<close>, so the sum assigned to it is truncated to 8 bits. A shift by 32 or
  more, which C leaves undefined, cannot occur for \<open>S0RETENTION_Pos = 16\<close>, as
  \<open>section'\<close> is below 16.
\<close>

definition locate_section :: "platform \<Rightarrow> u32 \<Rightarrow> u8 \<times> u32 \<times> u32" where
  "locate_section p addr =
    (let is_large = (addr \<ge> LARGE_SECTION_BEGIN p);
         block = (if is_large then 8 else 0 :: u8);
         block_base = (if is_large then LARGE_SECTION_BEGIN p else SRAM_BEGIN p);
         section_size = (if is_large then LARGE_SECTION_SIZE else SMALL_SECTION_SIZE);
         sections_per_block = (if is_large then 16 else SMALL_SECTIONS_PER_BLOCK);
         section = (addr - block_base) div section_size;
         block' = (if section \<ge> sections_per_block
                   then block + ucast (section div sections_per_block) else block);
         section' = (if section \<ge> sections_per_block
                     then section mod sections_per_block else section);
         section_mask = push_bit (unat (section' + S0RETENTION_Pos p)) (S0RETENTION_On p)
     in (block', section_mask, section_size))"

text \<open>The branch on \<^verbatim>\<open>enable\<close> at the end of the loop body.\<close>

definition rampower_call :: "bool \<Rightarrow> u8 \<Rightarrow> u32 \<Rightarrow> hw_call" where
  "rampower_call enable block section_mask =
    (if enable then nrf_power_rampower_mask_on block section_mask
     else nrf_power_rampower_mask_off block section_mask)"

text \<open>
  The loop. It issues one HAL call for the section of \<open>addr\<close>, moves \<open>addr\<close> to the
  first address of the next section and repeats while \<open>addr < addr_end\<close>. The calls
  issued so far are threaded through as \<open>hw\<close>. The address is a 32-bit word, so the
  loop need not terminate for arbitrary arguments: not returning is \<open>None\<close>.
\<close>

partial_function (option) retain_loop ::
  "platform \<Rightarrow> bool \<Rightarrow> u32 \<Rightarrow> u32 \<Rightarrow> hw_call list \<Rightarrow> hw_call list option" where
  "retain_loop p enable addr_end addr hw =
    (case locate_section p addr of (block, section_mask, section_size) \<Rightarrow>
      (let hw' = hw @ [rampower_call enable block section_mask];
           addr' = addr + (section_size - addr mod section_size)
       in if addr' < addr_end then retain_loop p enable addr_end addr' hw'
          else Some hw'))"

text \<open>
  \<^verbatim>\<open>ram_range_retain(ptr, len, enable)\<close>: the return code and the HAL calls issued,
  in order.
\<close>

definition ram_range_retain ::
  "platform \<Rightarrow> u32 \<Rightarrow> u32 \<Rightarrow> bool \<Rightarrow> (int \<times> hw_call list) option" where
  "ram_range_retain p ptr len enable =
    (let addr = ptr;
         addr_end = addr + len
     in if len = 0 \<or> addr < SRAM_BEGIN p \<or> addr > SRAM_END p - len
        then Some (- EINVAL, [])
        else map_option (\<lambda>hw. (0, hw)) (retain_loop p enable addr_end addr []))"

section \<open>CRC-32\<close>

text \<open>
  Modelled from the spec: \<^verbatim>\<open>crc32_ieee\<close> is Zephyr's (\<^verbatim>\<open>zephyr/sys/crc.h\<close>) and is
  not part of the sources. The spec names it: CRC-32/ISO-HDLC, the reflected variant
  of polynomial \<open>0x04C11DB7\<close> (reflected: \<open>0xEDB88320\<close>), initial value
  \<open>0xFFFFFFFF\<close>, final XOR \<open>0xFFFFFFFF\<close>. One shift of the CRC register:
\<close>

definition crc32_shift :: "u32 \<Rightarrow> u32" where
  "crc32_shift c = (if bit c 0 then drop_bit 1 c XOR 0xEDB88320 else drop_bit 1 c)"

text \<open>
  Modelled from the spec: one byte of input, added to the low byte of the register and
  followed by eight shifts (the bitwise form of the reflected CRC).
\<close>

definition crc32_byte :: "u32 \<Rightarrow> u8 \<Rightarrow> u32" where
  "crc32_byte c b = (crc32_shift ^^ 8) (c XOR ucast b)"

text \<open>
  Modelled from the spec: \<^verbatim>\<open>crc32_ieee(data, len)\<close> over the \<open>len\<close> bytes \<open>data\<close>,
  with initial value \<open>0xFFFFFFFF\<close> and final XOR \<open>0xFFFFFFFF\<close>.
\<close>

definition crc32_ieee :: "u8 list \<Rightarrow> u32" where
  "crc32_ieee data = NOT (foldl crc32_byte 0xFFFFFFFF data)"

section \<open>ram\_retained\_update and ram\_retained\_validate\<close>

text \<open>
  The record is the object \<open>mem\<close> (its bytes, in address order) that the pointer
  argument refers to; \<open>ptr\<close> is its address.
\<close>

text \<open>The bytes of a 32-bit value as a little-endian store lays them out.\<close>

definition le32_bytes :: "u32 \<Rightarrow> u8 list" where
  "le32_bytes w = [ucast w, ucast (drop_bit 8 w), ucast (drop_bit 16 w), ucast (drop_bit 24 w)]"

text \<open>
  \<^verbatim>\<open>ram_retained_update\<close>: the CRC of the first \<open>a_retained_crc_offset\<close> bytes,
  stored through \<^verbatim>\<open>sys_cpu_to_le32\<close> at that offset.
\<close>

definition ram_retained_update :: "u8 list \<Rightarrow> u32 \<Rightarrow> error + u8 list" where
  "ram_retained_update mem a_retained_crc_offset =
    (let off = unat a_retained_crc_offset
     in if off + 4 > length mem then Inl Out_of_bounds
        else (let crc = crc32_ieee (take off mem)
              in Inr (take off mem @ le32_bytes crc @ drop (off + 4) mem)))"

definition residue :: u32 where
  "residue = 0x2144df1c"

text \<open>
  \<^verbatim>\<open>ram_retained_validate\<close>: the validity flag, the bytes of the object afterwards
  and the HAL calls issued by the call of \<^verbatim>\<open>ram_range_retain\<close>, whose return
  code is dropped.
\<close>

definition ram_retained_validate ::
  "platform \<Rightarrow> u32 \<Rightarrow> u8 list \<Rightarrow> u32 \<Rightarrow> u32 \<Rightarrow> u32 \<Rightarrow>
   (error + bool \<times> u8 list \<times> hw_call list) option" where
  "ram_retained_validate p ptr mem a_retained_var_size a_retained_crc_offset a_sizeof_retained_crc =
    (let retained_checked_size = a_retained_crc_offset + a_sizeof_retained_crc
     in if unat retained_checked_size > length mem then Some (Inl Out_of_bounds)
        else (let crc = crc32_ieee (take (unat retained_checked_size) mem);
                  valid = (crc = residue)
              in if \<not> valid \<and> unat a_retained_var_size > length mem
                 then Some (Inl Out_of_bounds)
                 else (let mem' = (if \<not> valid
                                   then replicate (unat a_retained_var_size) 0 @
                                        drop (unat a_retained_var_size) mem
                                   else mem)
                       in map_option (\<lambda>(rc, hw). Inr (valid, mem', hw))
                            (ram_range_retain p ptr retained_checked_size True))))"

definition RR_Init_Variable_Ram_Retention ::
  "platform \<Rightarrow> u32 \<Rightarrow> u8 list \<Rightarrow> u32 \<Rightarrow> u32 \<Rightarrow> u32 \<Rightarrow>
   (error + bool \<times> u8 list \<times> hw_call list) option" where
  "RR_Init_Variable_Ram_Retention p ptr mem a_retained_var_size a_retained_crc_offset a_sizeof_retained_crc =
    ram_retained_validate p ptr mem a_retained_var_size a_retained_crc_offset a_sizeof_retained_crc"

section \<open>Vocabulary of the properties\<close>

text \<open>
  A range \<open>[addr, addr + len)\<close> that is not empty and lies inside
  \<open>[SRAM_BEGIN, SRAM_END)\<close>, with the sums taken in the natural numbers.
\<close>

definition in_sram :: "platform \<Rightarrow> u32 \<Rightarrow> u32 \<Rightarrow> bool" where
  "in_sram p addr len \<longleftrightarrow>
     0 < unat len \<and> unat (sram0_reg_addr p) \<le> unat addr \<and>
     unat addr + unat len \<le> unat (sram0_reg_addr p) + unat (sram0_reg_size p)"

text \<open>
  The devicetree entry describes a RAM that ends at least one large section before the
  end of the 32-bit address space, so that the first address of the section after the
  last one is still an address.
\<close>

definition sram_fits :: "platform \<Rightarrow> bool" where
  "sram_fits p \<longleftrightarrow> unat (sram0_reg_addr p) + unat (sram0_reg_size p) + 32768 \<le> 2 ^ 32"

text \<open>
  The RAM starts on a large-section boundary, and its small sections end below the top
  of the address space. The loop takes section boundaries from \<open>addr mod section_size\<close>,
  the absolute address, and sections from \<open>addr - block_base\<close>: the two agree on
  such a RAM.
\<close>

definition sram_aligned :: "platform \<Rightarrow> bool" where
  "sram_aligned p \<longleftrightarrow>
     unat (sram0_reg_addr p) mod 32768 = 0 \<and> unat (sram0_reg_addr p) + 65536 < 2 ^ 32"

text \<open>
  The sections of the RAM numbered in address order: 0 to 15 are the small sections,
  16 and up the large ones. \<open>section_index p a\<close> is the number of the section
  that holds the address \<open>a\<close>.
\<close>

definition section_index :: "platform \<Rightarrow> nat \<Rightarrow> nat" where
  "section_index p a =
    (let b = unat (sram0_reg_addr p)
     in if a < b + 65536 then (a - b) div 4096 else 16 + (a - (b + 65536)) div 32768)"

text \<open>
  The HAL call that retention of section number \<open>i\<close> takes: two small sections to a
  block, sixteen large sections to a block from block 8 on, one mask bit per section.
\<close>

definition section_call :: "platform \<Rightarrow> bool \<Rightarrow> nat \<Rightarrow> hw_call" where
  "section_call p enable i =
    (let block = (if i < 16 then of_nat (i div 2) else 8 + of_nat ((i - 16) div 16)) :: u8;
         section = (if i < 16 then of_nat (i mod 2) else of_nat ((i - 16) mod 16)) :: u32
     in rampower_call enable block
          (push_bit (unat (section + S0RETENTION_Pos p)) (S0RETENTION_On p)))"

section \<open>The CRC residue\<close>

lemma crc32_shift_xor: "crc32_shift (a XOR b) = crc32_shift a XOR crc32_shift b"
  by (simp add: crc32_shift_def bit_xor_iff drop_bit_xor ac_simps)

lemma crc32_shift_pow_xor:
  "(crc32_shift ^^ n) (a XOR b) = (crc32_shift ^^ n) a XOR (crc32_shift ^^ n) b"
  by (induction n arbitrary: a b) (simp_all add: crc32_shift_xor)

text \<open>While the low bits are zero the register is only shifted.\<close>

lemma crc32_shift_pow_low_zero:
  "take_bit n c = 0 \<Longrightarrow> (crc32_shift ^^ n) c = drop_bit n c"
proof (induction n arbitrary: c)
  case 0
  then show ?case by simp
next
  case (Suc n)
  have "bit (take_bit (Suc n) c) 0 \<longleftrightarrow> bit c 0"
    by (simp add: bit_take_bit_iff)
  with Suc.prems have b0: "\<not> bit c 0" by simp
  have "take_bit n (drop_bit 1 c) = drop_bit 1 (take_bit (Suc n) c)"
    by (simp add: take_bit_drop_bit)
  then have tz: "take_bit n (drop_bit 1 c) = 0" using Suc.prems by simp
  have "(crc32_shift ^^ Suc n) c = (crc32_shift ^^ n) (crc32_shift c)"
    by (simp add: funpow_swap1)
  also have "\<dots> = (crc32_shift ^^ n) (drop_bit 1 c)" using b0 by (simp add: crc32_shift_def)
  also have "\<dots> = drop_bit n (drop_bit 1 c)" using Suc.IH [OF tz] .
  finally show ?case by simp
qed

lemma split_low_byte: "(w :: u32) = ucast (ucast w :: u8) XOR push_bit 8 (drop_bit 8 w)"
  by (rule bit_eqI) (auto simp add: bit_simps)

lemma drop_push_drop: "drop_bit 8 (push_bit 8 (drop_bit 8 w)) = drop_bit 8 (w :: u32)"
  by (rule bit_eqI) (auto simp add: bit_simps dest: bit_imp_le_length)

text \<open>
  Feeding the low byte of \<open>w\<close> and keeping the rest of \<open>w\<close> for later is the same as
  adding all of \<open>w\<close> to the register at once and shifting eight times.
\<close>

lemma crc32_byte_absorb:
  "crc32_byte c (ucast w) XOR drop_bit 8 w = (crc32_shift ^^ 8) (c XOR w)"
proof -
  have e: "c XOR w = (c XOR ucast (ucast w :: u8)) XOR push_bit 8 (drop_bit 8 w)"
    using arg_cong [OF split_low_byte [of w], of "\<lambda>x. c XOR x"] by (simp only: xor.assoc)
  have z: "take_bit 8 (push_bit 8 (drop_bit 8 w)) = 0"
    by (simp add: take_bit_push_bit)
  have "(crc32_shift ^^ 8) (c XOR w) =
        crc32_byte c (ucast w) XOR (crc32_shift ^^ 8) (push_bit 8 (drop_bit 8 w))"
    by (subst e) (simp only: crc32_shift_pow_xor crc32_byte_def)
  also have "(crc32_shift ^^ 8) (push_bit 8 (drop_bit 8 w)) = drop_bit 8 (push_bit 8 (drop_bit 8 w))"
    using z by (rule crc32_shift_pow_low_zero)
  finally show ?thesis by (simp only: drop_push_drop)
qed

lemma foldl_le32_bytes:
  "foldl crc32_byte c (le32_bytes w) =
   (crc32_shift ^^ 8) ((crc32_shift ^^ 8) ((crc32_shift ^^ 8) ((crc32_shift ^^ 8) (c XOR w))))"
proof -
  define c1 where "c1 = crc32_byte c (ucast w)"
  define c2 where "c2 = crc32_byte c1 (ucast (drop_bit 8 w))"
  define c3 where "c3 = crc32_byte c2 (ucast (drop_bit 16 w))"
  define c4 where "c4 = crc32_byte c3 (ucast (drop_bit 24 w))"
  have s1: "(crc32_shift ^^ 8) (c XOR w) = c1 XOR drop_bit 8 w"
    unfolding c1_def by (simp only: crc32_byte_absorb)
  have s2: "(crc32_shift ^^ 8) (c1 XOR drop_bit 8 w) = c2 XOR drop_bit 16 w"
    unfolding c2_def using crc32_byte_absorb [of c1 "drop_bit 8 w"]
    by (simp add: drop_bit_drop_bit)
  have s3: "(crc32_shift ^^ 8) (c2 XOR drop_bit 16 w) = c3 XOR drop_bit 24 w"
    unfolding c3_def using crc32_byte_absorb [of c2 "drop_bit 16 w"]
    by (simp add: drop_bit_drop_bit)
  have s4: "(crc32_shift ^^ 8) (c3 XOR drop_bit 24 w) = c4"
    unfolding c4_def using crc32_byte_absorb [of c3 "drop_bit 24 w"]
    by (simp add: drop_bit_drop_bit)
  have "foldl crc32_byte c (le32_bytes w) = c4"
    by (simp add: le32_bytes_def c1_def c2_def c3_def c4_def)
  then show ?thesis
    by (simp only: s1 s2 s3 s4)
qed

lemma crc32_shift_pow8:
  "(crc32_shift ^^ 8) x = crc32_shift (crc32_shift (crc32_shift (crc32_shift
     (crc32_shift (crc32_shift (crc32_shift (crc32_shift x)))))))"
  by (simp add: eval_nat_numeral)

lemma residue_const:
  "NOT ((crc32_shift ^^ 8) ((crc32_shift ^^ 8) ((crc32_shift ^^ 8)
     ((crc32_shift ^^ 8) 0xFFFFFFFF)))) = residue"
  by (simp add: residue_def crc32_shift_pow8 crc32_shift_def)

text \<open>The CRC of a message followed by its own CRC, least significant byte first.\<close>

lemma crc32_residue: "crc32_ieee (m @ le32_bytes (crc32_ieee m)) = residue"
proof -
  let ?s = "foldl crc32_byte 0xFFFFFFFF m"
  have x: "?s XOR NOT ?s = 0xFFFFFFFF"
    by (simp add: bit.xor_compl_right)
  have "foldl crc32_byte 0xFFFFFFFF (m @ le32_bytes (crc32_ieee m))
       = foldl crc32_byte ?s (le32_bytes (NOT ?s))"
    by (simp add: crc32_ieee_def)
  then show ?thesis
    using residue_const by (simp only: crc32_ieee_def foldl_le32_bytes x)
qed

text \<open>The check value of CRC-32/ISO-HDLC: the CRC of the ASCII digits 1 to 9.\<close>

lemma crc32_ieee_check_value:
  "crc32_ieee [0x31, 0x32, 0x33, 0x34, 0x35, 0x36, 0x37, 0x38, 0x39] = 0xCBF43926"
  by (simp add: crc32_ieee_def crc32_byte_def crc32_shift_pow8 crc32_shift_def)

section \<open>The section walk\<close>

lemmas geometry_defs =
  SRAM_BEGIN_def SRAM_END_def SMALL_SECTION_SIZE_def SMALL_SECTIONS_PER_BLOCK_def
  SMALL_BLOCK_SIZE_def SMALL_BLOCK_COUNT_def SMALL_SECTION_SPAN_def
  LARGE_SECTION_BEGIN_def LARGE_SECTION_SIZE_def

lemma locate_section_size:
  "snd (snd (locate_section p addr)) = 4096 \<or> snd (snd (locate_section p addr)) = 32768"
  by (simp add: locate_section_def Let_def geometry_defs)

lemma unat_next_section:
  fixes addr ss :: u32
  assumes ss: "ss = 4096 \<or> ss = 32768" and nowrap: "unat addr + 32768 < 2 ^ 32"
  shows "unat (addr + (ss - addr mod ss)) = unat addr + (unat ss - unat addr mod unat ss)"
proof -
  from ss have pos: "0 < unat ss" and le: "unat ss \<le> 32768" by auto
  have m: "unat (addr mod ss) = unat addr mod unat ss"
    by (simp add: unat_mod)
  have lt: "unat addr mod unat ss < unat ss"
    using pos by simp
  then have "addr mod ss \<le> ss"
    by (simp add: word_le_nat_alt m)
  then have d: "unat (ss - addr mod ss) = unat ss - unat addr mod unat ss"
    by (simp add: unat_sub m)
  have "unat addr + unat (ss - addr mod ss) < 2 ^ 32"
    using d le nowrap by simp
  then have "unat (addr + (ss - addr mod ss)) = unat addr + unat (ss - addr mod ss)"
    by (simp add: unat_add_lem [THEN iffD1])
  with d show ?thesis by simp
qed

lemma next_section_greater:
  fixes addr ss :: u32
  assumes ss: "ss = 4096 \<or> ss = 32768" and nowrap: "unat addr + 32768 < 2 ^ 32"
  shows "addr < addr + (ss - addr mod ss)"
proof -
  from ss have pos: "0 < unat ss" by auto
  then have "unat addr mod unat ss < unat ss" by simp
  then show ?thesis
    using unat_next_section [OF ss nowrap] by (simp add: word_less_nat_alt)
qed

text \<open>
  Below the last large section of the address space the loop returns, and the pairs of
  block and mask it passes to the HAL do not depend on \<open>enable\<close> or on the calls
  issued before.
\<close>

lemma retain_loop_calls:
  assumes "unat addr_end + 32768 \<le> 2 ^ 32" and "addr < addr_end"
  shows "\<exists>cs. cs \<noteq> [] \<and>
     (\<forall>enable hw. retain_loop p enable addr_end addr hw =
        Some (hw @ map (\<lambda>(block, section_mask). rampower_call enable block section_mask) cs))"
  using assms
proof (induction "unat addr_end - unat addr" arbitrary: addr rule: less_induct)
  case less
  obtain block section_mask ss where loc: "locate_section p addr = (block, section_mask, ss)"
    by (cases "locate_section p addr") auto
  from locate_section_size [of p addr] loc have ss: "ss = 4096 \<or> ss = 32768"
    by simp
  define addr' where "addr' = addr + (ss - addr mod ss)"
  from less.prems have nowrap: "unat addr + 32768 < 2 ^ 32"
    by (simp add: word_less_nat_alt)
  have gt: "addr < addr'"
    unfolding addr'_def using ss nowrap by (rule next_section_greater)
  show ?case
  proof (cases "addr' < addr_end")
    case True
    have "unat addr_end - unat addr' < unat addr_end - unat addr"
      using gt True by (simp add: word_less_nat_alt)
    from less.hyps [OF this less.prems(1) True]
    obtain cs where cs: "\<And>enable hw. retain_loop p enable addr_end addr' hw =
        Some (hw @ map (\<lambda>(block, section_mask). rampower_call enable block section_mask) cs)"
      by blast
    have "retain_loop p enable addr_end addr hw =
        Some (hw @ map (\<lambda>(block, section_mask). rampower_call enable block section_mask)
                ((block, section_mask) # cs))" for enable hw
      using True loc cs by (subst retain_loop.simps) (simp add: addr'_def [symmetric])
    then show ?thesis by blast
  next
    case False
    have "retain_loop p enable addr_end addr hw =
        Some (hw @ map (\<lambda>(block, section_mask). rampower_call enable block section_mask)
                [(block, section_mask)])" for enable hw
      using False loc by (subst retain_loop.simps) (simp add: addr'_def [symmetric])
    then show ?thesis by blast
  qed
qed

text \<open>A range inside the RAM passes the bounds check, and its end does not wrap.\<close>

lemma in_sram_accepted:
  assumes fits: "sram_fits p" and inside: "in_sram p addr len"
  shows "\<not> (len = 0 \<or> addr < SRAM_BEGIN p \<or> addr > SRAM_END p - len)"
    and "addr < addr + len"
    and "unat (addr + len) + 32768 \<le> 2 ^ 32"
proof -
  let ?B = "unat (sram0_reg_addr p)" and ?S = "unat (sram0_reg_size p)"
  from fits have f: "?B + ?S + 32768 \<le> 2 ^ 32" by (simp add: sram_fits_def)
  from inside have len: "0 < unat len" and lo: "?B \<le> unat addr"
    and hi: "unat addr + unat len \<le> ?B + ?S"
    by (simp_all add: in_sram_def)
  have e: "unat (SRAM_END p) = ?B + ?S"
    using f by (simp add: SRAM_END_def SRAM_BEGIN_def unat_add_lem [THEN iffD1])
  have le: "len \<le> SRAM_END p"
    using hi e by (simp add: word_le_nat_alt)
  then have d: "unat (SRAM_END p - len) = ?B + ?S - unat len"
    using e by (simp add: unat_sub)
  have a: "unat (addr + len) = unat addr + unat len"
    using hi f by (simp add: unat_add_lem [THEN iffD1])
  show "\<not> (len = 0 \<or> addr < SRAM_BEGIN p \<or> addr > SRAM_END p - len)"
    using len lo hi d by (auto simp add: word_less_nat_alt SRAM_BEGIN_def unat_gt_0)
  show "addr < addr + len"
    using a len by (simp add: word_less_nat_alt)
  show "unat (addr + len) + 32768 \<le> 2 ^ 32"
    using a hi f by simp
qed

lemma ram_range_retain_in_sram:
  assumes fits: "sram_fits p" and inside: "in_sram p addr len"
  shows "\<exists>cs. cs \<noteq> [] \<and>
     (\<forall>enable. ram_range_retain p addr len enable =
        Some (0, map (\<lambda>(block, section_mask). rampower_call enable block section_mask) cs))"
proof -
  from retain_loop_calls [OF in_sram_accepted(3) [OF fits inside] in_sram_accepted(2) [OF fits inside]]
  obtain cs where cs: "cs \<noteq> []"
    "\<And>enable hw. retain_loop p enable (addr + len) addr hw =
        Some (hw @ map (\<lambda>(block, section_mask). rampower_call enable block section_mask) cs)"
    by blast
  have "ram_range_retain p addr len enable =
        Some (0, map (\<lambda>(block, section_mask). rampower_call enable block section_mask) cs)"
    for enable
    using in_sram_accepted(1) [OF fits inside] cs(2) [of enable "[]"]
    by (simp add: ram_range_retain_def Let_def)
  with cs(1) show ?thesis by blast
qed

text \<open>
  For a length that does not exceed \<open>SRAM_END\<close> the subtraction in the bounds check
  does not wrap around, and the check rejects exactly the ranges that are empty or not
  inside the RAM.
\<close>

lemma bounds_check_exact:
  assumes fits: "sram_fits p" and le: "len \<le> SRAM_END p"
  shows "(len = 0 \<or> addr < SRAM_BEGIN p \<or> addr > SRAM_END p - len) \<longleftrightarrow> \<not> in_sram p addr len"
proof -
  let ?B = "unat (sram0_reg_addr p)" and ?S = "unat (sram0_reg_size p)"
  from fits have f: "?B + ?S + 32768 \<le> 2 ^ 32" by (simp add: sram_fits_def)
  have e: "unat (SRAM_END p) = ?B + ?S"
    using f by (simp add: SRAM_END_def SRAM_BEGIN_def unat_add_lem [THEN iffD1])
  from le have l: "unat len \<le> ?B + ?S"
    using e by (simp add: word_le_nat_alt)
  from le have d: "unat (SRAM_END p - len) = ?B + ?S - unat len"
    using e by (simp add: unat_sub)
  have "len = 0 \<longleftrightarrow> unat len = 0" by (simp add: unat_eq_0)
  moreover have "addr < SRAM_BEGIN p \<longleftrightarrow> unat addr < ?B"
    by (simp add: word_less_nat_alt SRAM_BEGIN_def)
  moreover have "addr > SRAM_END p - len \<longleftrightarrow> ?B + ?S < unat addr + unat len"
    using d l by (auto simp add: word_less_nat_alt)
  ultimately show ?thesis
    by (auto simp add: in_sram_def)
qed

lemma ram_range_retain_rejects:
  assumes fits: "sram_fits p" and le: "len \<le> SRAM_END p" and out: "\<not> in_sram p addr len"
  shows "ram_range_retain p addr len enable = Some (- EINVAL, [])"
  using bounds_check_exact [OF fits le, of addr] out
  by (simp add: ram_range_retain_def Let_def)

lemma ram_range_retain_returns:
  assumes fits: "sram_fits p" and le: "len \<le> SRAM_END p"
  shows "\<exists>rc hw. ram_range_retain p addr len enable = Some (rc, hw)"
proof (cases "in_sram p addr len")
  case True
  from ram_range_retain_in_sram [OF fits True] show ?thesis by blast
next
  case False
  from ram_range_retain_rejects [OF fits le False] show ?thesis by blast
qed

lemma next_section_step:
  fixes a :: u32
  assumes nowrap: "unat a + 32768 < 2 ^ 32"
  shows "case locate_section p a of (block, section_mask, section_size) \<Rightarrow>
           1 \<le> unat (section_size - a mod section_size) \<and>
           a < a + (section_size - a mod section_size)"
proof -
  obtain block section_mask ss where loc: "locate_section p a = (block, section_mask, ss)"
    by (cases "locate_section p a") auto
  from locate_section_size [of p a] loc have ss: "ss = 4096 \<or> ss = 32768"
    by simp
  have gt: "a < a + (ss - a mod ss)"
    using ss nowrap by (rule next_section_greater)
  then have "ss - a mod ss \<noteq> 0" by auto
  then have "1 \<le> unat (ss - a mod ss)"
    by (simp add: unat_gt_0 Suc_le_eq)
  with gt loc show ?thesis by simp
qed

lemma nrf52832_fits: "sram_fits nrf52832"
  by (simp add: sram_fits_def nrf52832_def)

lemma nrf52840_fits: "sram_fits nrf52840"
  by (simp add: sram_fits_def nrf52840_def)

section \<open>One call per section\<close>

lemma section_index_mono:
  assumes "unat (sram0_reg_addr p) \<le> x" and "x \<le> y"
  shows "section_index p x \<le> section_index p y"
proof -
  let ?b = "unat (sram0_reg_addr p)"
  consider "y < ?b + 65536" | "x < ?b + 65536" "?b + 65536 \<le> y" | "?b + 65536 \<le> x"
    by linarith
  then show ?thesis
  proof cases
    case 1
    then show ?thesis using assms by (simp add: section_index_def div_le_mono)
  next
    case 2
    then have "(x - ?b) div 4096 < 16" using assms by simp
    then show ?thesis using 2 by (simp add: section_index_def)
  next
    case 3
    then show ?thesis using assms by (simp add: section_index_def div_le_mono)
  qed
qed

lemma mod_section:
  fixes b c u n :: nat
  assumes "b = n * c"
  shows "(b + u) mod n = u mod n"
  using assms by simp

lemma small_section_step:
  fixes a :: nat
  assumes al: "unat (sram0_reg_addr p) mod 32768 = 0"
    and lo: "unat (sram0_reg_addr p) \<le> a" and small: "a < unat (sram0_reg_addr p) + 65536"
  shows "section_index p (a + (4096 - a mod 4096)) = Suc (section_index p a)"
    and "\<And>x. a \<le> x \<Longrightarrow> x < a + (4096 - a mod 4096) \<Longrightarrow> section_index p x = section_index p a"
proof -
  define b where "b = unat (sram0_reg_addr p)"
  define k where "k = (a - b) div 4096"
  define r where "r = (a - b) mod 4096"
  have r: "r < 4096" by (simp add: r_def)
  have u: "a - b = 4096 * k + r" by (simp add: k_def r_def)
  have a: "a = b + (4096 * k + r)" using lo u by (simp add: b_def)
  have k: "k < 16" using small a r by (simp add: b_def)
  from al have "b = 4096 * (8 * (b div 32768))"
    unfolding b_def [symmetric] by (simp add: mod_eq_0_iff_dvd)
  then have "(b + (a - b)) mod 4096 = (a - b) mod 4096" by (rule mod_section)
  then have m: "a mod 4096 = r" using lo by (simp add: r_def b_def)
  have a': "a + (4096 - a mod 4096) = b + 4096 * (k + 1)"
    unfolding m using a r by simp
  have ia: "section_index p a = k"
    using small by (simp add: section_index_def b_def k_def)
  have "section_index p (b + 4096 * (k + 1)) = Suc k"
  proof (cases "k = 15")
    case True
    then show ?thesis by (simp add: section_index_def b_def)
  next
    case False
    with k have "4096 * (k + 1) < (65536 :: nat)" by simp
    moreover have "(4096 * (k + 1)) div 4096 = k + 1"
      by (rule nonzero_mult_div_cancel_left) simp
    ultimately show ?thesis
      by (simp add: section_index_def b_def [symmetric])
  qed
  then show "section_index p (a + (4096 - a mod 4096)) = Suc (section_index p a)"
    by (simp only: a' ia)
  show "section_index p x = section_index p a"
    if "a \<le> x" and "x < a + (4096 - a mod 4096)" for x
  proof -
    from that have "4096 * k \<le> x - b" "x - b < 4096 * Suc k"
      unfolding a' using a by simp_all
    then have d: "(x - b) div 4096 = k"
      by (rule div_nat_eqI)
    have "x < b + 65536" using that(2) k unfolding a' by simp
    then show ?thesis
      unfolding ia using d by (simp add: section_index_def b_def [symmetric])
  qed
qed

lemma large_section_step:
  fixes a :: nat
  assumes al: "unat (sram0_reg_addr p) mod 32768 = 0"
    and large: "unat (sram0_reg_addr p) + 65536 \<le> a"
  shows "section_index p (a + (32768 - a mod 32768)) = Suc (section_index p a)"
    and "\<And>x. a \<le> x \<Longrightarrow> x < a + (32768 - a mod 32768) \<Longrightarrow> section_index p x = section_index p a"
proof -
  define b where "b = unat (sram0_reg_addr p) + 65536"
  define k where "k = (a - b) div 32768"
  define r where "r = (a - b) mod 32768"
  have r: "r < 32768" by (simp add: r_def)
  have u: "a - b = 32768 * k + r" by (simp add: k_def r_def)
  have a: "a = b + (32768 * k + r)" using large u by (simp add: b_def)
  from al have "unat (sram0_reg_addr p) = 32768 * (unat (sram0_reg_addr p) div 32768)"
    by (simp add: mod_eq_0_iff_dvd)
  then have "b = 32768 * (unat (sram0_reg_addr p) div 32768 + 2)"
    unfolding b_def by simp
  then have "(b + (a - b)) mod 32768 = (a - b) mod 32768" by (rule mod_section)
  then have m: "a mod 32768 = r" using large by (simp add: r_def b_def)
  have a': "a + (32768 - a mod 32768) = b + 32768 * (k + 1)"
    unfolding m using a r by simp
  have nl: "\<not> x < unat (sram0_reg_addr p) + 65536" if "a \<le> x" for x
    using that large by simp
  have ia: "section_index p a = 16 + k"
    using large by (simp add: section_index_def b_def k_def)
  have "(32768 * (k + 1)) div 32768 = k + 1"
    by (rule nonzero_mult_div_cancel_left) simp
  then have "section_index p (b + 32768 * (k + 1)) = Suc (16 + k)"
    by (simp add: section_index_def b_def)
  then show "section_index p (a + (32768 - a mod 32768)) = Suc (section_index p a)"
    by (simp only: a' ia)
  show "section_index p x = section_index p a"
    if "a \<le> x" and "x < a + (32768 - a mod 32768)" for x
  proof -
    from that have "32768 * k \<le> x - b" "x - b < 32768 * Suc k"
      unfolding a' using a by simp_all
    then have d: "(x - b) div 32768 = k"
      by (rule div_nat_eqI)
    then show ?thesis
      unfolding ia using nl [OF that(1)] by (simp add: section_index_def b_def)
  qed
qed

lemma ucast_of_nat_u32_u8: "(ucast (of_nat n :: u32) :: u8) = of_nat n"
  by (rule bit_word_eqI) (auto simp add: bit_simps)

text \<open>The folding of excess sections into the block index, in closed form.\<close>

lemma fold_excess_sections:
  fixes spb sct :: u32 and block :: u8
  shows "(if sct \<ge> spb then block + ucast (sct div spb) else block) =
           block + of_nat (unat sct div unat spb)"
    and "(if sct \<ge> spb then sct mod spb else sct) =
           of_nat (unat sct mod unat spb)"
proof -
  have d: "sct div spb = of_nat (unat sct div unat spb)"
    by (rule word_arith_nat_div)
  have m: "sct mod spb = of_nat (unat sct mod unat spb)"
    by (rule word_arith_nat_mod)
  show "(if sct \<ge> spb then block + ucast (sct div spb) else block) =
           block + of_nat (unat sct div unat spb)"
  proof (cases "sct \<ge> spb")
    case True
    then show ?thesis by (simp add: d ucast_of_nat_u32_u8)
  next
    case False
    then have "unat sct < unat spb" by (simp add: word_le_nat_alt)
    with False show ?thesis by simp
  qed
  show "(if sct \<ge> spb then sct mod spb else sct) =
           of_nat (unat sct mod unat spb)"
  proof (cases "sct \<ge> spb")
    case True
    then show ?thesis by (simp add: m)
  next
    case False
    then have "unat sct < unat spb" by (simp add: word_le_nat_alt)
    with False show ?thesis by simp
  qed
qed

lemma locate_section_unfold:
  "locate_section p addr =
    (if addr \<ge> LARGE_SECTION_BEGIN p
     then (8 + of_nat (unat ((addr - LARGE_SECTION_BEGIN p) div 32768) div 16),
           push_bit (unat (of_nat (unat ((addr - LARGE_SECTION_BEGIN p) div 32768) mod 16)
                           + S0RETENTION_Pos p)) (S0RETENTION_On p),
           32768)
     else (of_nat (unat ((addr - SRAM_BEGIN p) div 4096) div 2),
           push_bit (unat (of_nat (unat ((addr - SRAM_BEGIN p) div 4096) mod 2)
                           + S0RETENTION_Pos p)) (S0RETENTION_On p),
           4096))"
proof (cases "addr \<ge> LARGE_SECTION_BEGIN p")
  have u16: "unat (16 :: u32) = 16" and u2: "unat (2 :: u32) = 2" by simp_all
  case True
  define sct where "sct = (addr - LARGE_SECTION_BEGIN p) div 32768"
  have "locate_section p addr =
      ((if sct \<ge> 16 then 8 + ucast (sct div 16) else 8),
       push_bit (unat ((if sct \<ge> 16 then sct mod 16 else sct) + S0RETENTION_Pos p))
         (S0RETENTION_On p), 32768)"
    using True by (simp add: locate_section_def Let_def LARGE_SECTION_SIZE_def sct_def)
  also have "(if sct \<ge> 16 then 8 + ucast (sct div 16) else 8) = (8 :: u8) + of_nat (unat sct div 16)"
    using fold_excess_sections(1) [of 16 sct 8] by (simp only: u16)
  also have "(if sct \<ge> 16 then sct mod 16 else sct) = of_nat (unat sct mod 16)"
    using fold_excess_sections(2) [of 16 sct] by (simp only: u16)
  finally show ?thesis using True by (simp add: sct_def)
next
  have u2: "unat (2 :: u32) = 2" by simp
  case False
  define sct where "sct = (addr - SRAM_BEGIN p) div 4096"
  have "locate_section p addr =
      ((if sct \<ge> 2 then 0 + ucast (sct div 2) else 0),
       push_bit (unat ((if sct \<ge> 2 then sct mod 2 else sct) + S0RETENTION_Pos p))
         (S0RETENTION_On p), 4096)"
    using False
    by (simp add: locate_section_def Let_def SMALL_SECTION_SIZE_def
        SMALL_SECTIONS_PER_BLOCK_def sct_def)
  also have "(if sct \<ge> 2 then 0 + ucast (sct div 2) else 0) = (0 :: u8) + of_nat (unat sct div 2)"
    using fold_excess_sections(1) [of 2 sct 0] by (simp only: u2)
  also have "(if sct \<ge> 2 then sct mod 2 else sct) = of_nat (unat sct mod 2)"
    using fold_excess_sections(2) [of 2 sct] by (simp only: u2)
  finally show ?thesis using False by (simp add: sct_def)
qed

lemma unat_LARGE_SECTION_BEGIN:
  assumes "sram_aligned p"
  shows "unat (LARGE_SECTION_BEGIN p) = unat (sram0_reg_addr p) + 65536"
proof -
  from assms have "unat (sram0_reg_addr p) + unat (65536 :: u32) < 2 ^ 32"
    by (simp add: sram_aligned_def)
  then have "unat (sram0_reg_addr p + 65536) = unat (sram0_reg_addr p) + unat (65536 :: u32)"
    by (simp add: unat_add_lem [THEN iffD1])
  then show ?thesis
    by (simp add: geometry_defs)
qed

lemma locate_section_call:
  assumes al: "sram_aligned p" and lo: "unat (sram0_reg_addr p) \<le> unat addr"
    and loc: "locate_section p addr = (blk, msk, ss)"
  shows "rampower_call en blk msk = section_call p en (section_index p (unat addr))"
    and "ss = (if unat addr < unat (sram0_reg_addr p) + 65536 then 4096 else 32768)"
proof -
  let ?b = "unat (sram0_reg_addr p)"
  note lb = unat_LARGE_SECTION_BEGIN [OF al]
  have both: "rampower_call en blk msk = section_call p en (section_index p (unat addr)) \<and>
     ss = (if unat addr < ?b + 65536 then 4096 else 32768)"
  proof (cases "addr \<ge> LARGE_SECTION_BEGIN p")
    case True
    then have ge: "?b + 65536 \<le> unat addr" by (simp add: word_le_nat_alt lb)
    have "unat (addr - LARGE_SECTION_BEGIN p) = unat addr - (?b + 65536)"
      using True by (simp add: unat_sub lb)
    then have k: "unat ((addr - LARGE_SECTION_BEGIN p) div 32768) = (unat addr - (?b + 65536)) div 32768"
      by (simp add: unat_div)
    have i: "section_index p (unat addr) = 16 + (unat addr - (?b + 65536)) div 32768"
      using ge by (simp add: section_index_def)
    from loc True have "blk = 8 + of_nat ((unat addr - (?b + 65536)) div 32768 div 16)"
      and "msk = push_bit (unat (of_nat ((unat addr - (?b + 65536)) div 32768 mod 16)
                           + S0RETENTION_Pos p)) (S0RETENTION_On p)"
      and "ss = 32768"
      unfolding locate_section_unfold k by simp_all
    then show ?thesis
      unfolding i using ge by (simp add: section_call_def)
  next
    case False
    then have lt: "unat addr < ?b + 65536" by (simp add: word_le_nat_alt lb)
    have "sram0_reg_addr p \<le> addr" using lo by (simp add: word_le_nat_alt)
    then have "unat (addr - SRAM_BEGIN p) = unat addr - ?b"
      by (simp add: unat_sub SRAM_BEGIN_def)
    then have k: "unat ((addr - SRAM_BEGIN p) div 4096) = (unat addr - ?b) div 4096"
      by (simp add: unat_div)
    have i: "section_index p (unat addr) = (unat addr - ?b) div 4096"
      using lt by (simp add: section_index_def)
    have i16: "(unat addr - ?b) div 4096 < 16"
      using lt lo by simp
    from loc False have "blk = of_nat ((unat addr - ?b) div 4096 div 2)"
      and "msk = push_bit (unat (of_nat ((unat addr - ?b) div 4096 mod 2)
                           + S0RETENTION_Pos p)) (S0RETENTION_On p)"
      and "ss = 4096"
      unfolding locate_section_unfold k by simp_all
    then show ?thesis
      unfolding i using lt i16 by (simp add: section_call_def)
  qed
  from both show "rampower_call en blk msk = section_call p en (section_index p (unat addr))" ..
  from both show "ss = (if unat addr < unat (sram0_reg_addr p) + 65536 then 4096 else 32768)" ..
qed

text \<open>The loop visits the sections from that of \<open>addr\<close> to that of \<open>addr_end - 1\<close>.\<close>

lemma retain_loop_sections:
  assumes al: "sram_aligned p" and e: "unat addr_end + 32768 \<le> 2 ^ 32"
    and lo: "unat (sram0_reg_addr p) \<le> unat addr" and lt: "addr < addr_end"
  shows "retain_loop p en addr_end addr hw =
     Some (hw @ map (section_call p en)
       [section_index p (unat addr) ..< Suc (section_index p (unat addr_end - 1))])"
  using lo lt
proof (induction "unat addr_end - unat addr" arbitrary: addr hw rule: less_induct)
  case less
  let ?b = "unat (sram0_reg_addr p)"
  let ?i = "section_index p (unat addr)"
  let ?j = "section_index p (unat addr_end - 1)"
  from al have al': "?b mod 32768 = 0" by (simp add: sram_aligned_def)
  obtain blk msk ss where loc: "locate_section p addr = (blk, msk, ss)"
    by (cases "locate_section p addr") auto
  note call = locate_section_call(1) [OF al less.prems(1) loc, of en]
  note size = locate_section_call(2) [OF al less.prems(1) loc]
  from size have ss: "ss = 4096 \<or> ss = 32768" by auto
  define addr' where "addr' = addr + (ss - addr mod ss)"
  from less.prems(2) e have nowrap: "unat addr + 32768 < 2 ^ 32"
    by (simp add: word_less_nat_alt)
  have ua': "unat addr' = unat addr + (unat ss - unat addr mod unat ss)"
    unfolding addr'_def using ss nowrap by (rule unat_next_section)
  have gt: "addr < addr'"
    unfolding addr'_def using ss nowrap by (rule next_section_greater)
  have step: "section_index p (unat addr') = Suc ?i"
    and same: "\<And>x. unat addr \<le> x \<Longrightarrow> x < unat addr' \<Longrightarrow> section_index p x = ?i"
  proof -
    show "section_index p (unat addr') = Suc ?i"
    proof (cases "unat addr < ?b + 65536")
      case True
      with size have "unat ss = 4096" by simp
      then show ?thesis
        unfolding ua' using small_section_step(1) [OF al' less.prems(1) True] by simp
    next
      case False
      with size have "unat ss = 32768" by simp
      then show ?thesis
        unfolding ua' using large_section_step(1) [OF al', of "unat addr"] False by simp
    qed
    show "section_index p x = ?i" if "unat addr \<le> x" and "x < unat addr'" for x
    proof (cases "unat addr < ?b + 65536")
      case True
      with size have "unat ss = 4096" by simp
      then show ?thesis
        using small_section_step(2) [OF al' less.prems(1) True that(1)] that(2)
        unfolding ua' by simp
    next
      case False
      with size have "unat ss = 32768" by simp
      then show ?thesis
        using large_section_step(2) [OF al' _ that(1)] that(2) False
        unfolding ua' by simp
    qed
  qed
  show ?case
  proof (cases "addr' < addr_end")
    case True
    have m: "unat addr_end - unat addr' < unat addr_end - unat addr"
      using gt True by (simp add: word_less_nat_alt)
    have lo': "?b \<le> unat addr'"
      using gt less.prems(1) by (simp add: word_less_nat_alt)
    have "unat addr' \<le> unat addr_end - 1"
      using True by (simp add: word_less_nat_alt)
    from section_index_mono [OF lo' this] step have ij: "?i < Suc ?j" by simp
    have "retain_loop p en addr_end addr hw =
        retain_loop p en addr_end addr' (hw @ [section_call p en ?i])"
      using True loc call by (subst retain_loop.simps) (simp add: addr'_def [symmetric])
    also have "\<dots> = Some ((hw @ [section_call p en ?i]) @ map (section_call p en)
       [section_index p (unat addr') ..< Suc ?j])"
      by (rule less.hyps [OF m lo' True])
    also have "(hw @ [section_call p en ?i]) @ map (section_call p en)
       [section_index p (unat addr') ..< Suc ?j] =
       hw @ map (section_call p en) [?i ..< Suc ?j]"
      unfolding step using upt_conv_Cons [OF ij] by simp
    finally show ?thesis .
  next
    case False
    have "unat addr \<le> unat addr_end - 1" "unat addr_end - 1 < unat addr'"
      using False less.prems(2) gt by (simp_all add: word_less_nat_alt)
    then have j: "?j = ?i" by (rule same)
    have "retain_loop p en addr_end addr hw = Some (hw @ [section_call p en ?i])"
      using False loc call by (subst retain_loop.simps) (simp add: addr'_def [symmetric])
    then show ?thesis unfolding j by simp
  qed
qed

lemma ram_range_retain_sections:
  assumes fits: "sram_fits p" and al: "sram_aligned p" and inside: "in_sram p addr len"
  shows "ram_range_retain p addr len en =
     Some (0, map (section_call p en)
       [section_index p (unat addr) ..< Suc (section_index p (unat addr + unat len - 1))])"
proof -
  from inside have lo: "unat (sram0_reg_addr p) \<le> unat addr"
    by (simp add: in_sram_def)
  have "unat addr + unat len < 2 ^ 32"
    using fits inside by (simp add: sram_fits_def in_sram_def)
  then have a: "unat (addr + len) = unat addr + unat len"
    by (simp add: unat_add_lem [THEN iffD1])
  from retain_loop_sections [OF al in_sram_accepted(3) [OF fits inside] lo
      in_sram_accepted(2) [OF fits inside], of en "[]"]
  show ?thesis
    using in_sram_accepted(1) [OF fits inside] a
    by (simp add: ram_range_retain_def Let_def)
qed

lemma section_index_small:
  assumes "unat (sram0_reg_addr p) + 4096 * k \<le> a" and "a < unat (sram0_reg_addr p) + 4096 * Suc k"
    and "k < 16"
  shows "section_index p a = k"
proof -
  let ?b = "unat (sram0_reg_addr p)"
  from assms have "4096 * k \<le> a - ?b" "a - ?b < 4096 * Suc k" by simp_all
  then have "(a - ?b) div 4096 = k" by (rule div_nat_eqI)
  moreover from assms have "a < ?b + 65536" by simp
  ultimately show ?thesis by (simp add: section_index_def)
qed

lemma section_index_large:
  assumes "unat (sram0_reg_addr p) + 65536 + 32768 * k \<le> a"
    and "a < unat (sram0_reg_addr p) + 65536 + 32768 * Suc k"
  shows "section_index p a = 16 + k"
proof -
  let ?b = "unat (sram0_reg_addr p) + 65536"
  from assms have "32768 * k \<le> a - ?b" "a - ?b < 32768 * Suc k" by simp_all
  then have "(a - ?b) div 32768 = k" by (rule div_nat_eqI)
  moreover from assms have "\<not> a < ?b" by simp
  ultimately show ?thesis by (simp add: section_index_def)
qed

lemma section_call_values:
  "section_call p en 6 = rampower_call en 3 (push_bit (unat (S0RETENTION_Pos p)) (S0RETENTION_On p))"
  "section_call p en 7 = rampower_call en 3 (push_bit (unat (1 + S0RETENTION_Pos p)) (S0RETENTION_On p))"
  "section_call p en 15 = rampower_call en 7 (push_bit (unat (1 + S0RETENTION_Pos p)) (S0RETENTION_On p))"
  "section_call p en 16 = rampower_call en 8 (push_bit (unat (S0RETENTION_Pos p)) (S0RETENTION_On p))"
  by (simp_all add: section_call_def)

lemma single_bit_mask:
  assumes "S0RETENTION_On p = 1" and "S0RETENTION_Pos p = 16" and "s < 16"
  shows "push_bit (unat (of_nat s + S0RETENTION_Pos p)) (S0RETENTION_On p) = (2 ^ (16 + s) :: u32)"
proof -
  have "unat (of_nat s + 16 :: u32) = s + 16"
    using assms(3) by (simp add: unat_word_ariths unat_of_nat)
  then show ?thesis
    using assms(1,2) by (simp add: push_bit_eq_mult add.commute)
qed

lemma section_call_single_bit:
  assumes on: "S0RETENTION_On p = 1" and pos: "S0RETENTION_Pos p = 16"
  shows "\<exists>block s. s < 16 \<and> section_call p en i = rampower_call en block (2 ^ (16 + s))"
proof (cases "i < 16")
  case True
  have s: "i mod 2 < 16" using mod_less_divisor [of 2 i] by linarith
  have "section_call p en i = rampower_call en (of_nat (i div 2)) (2 ^ (16 + i mod 2))"
    using True single_bit_mask [OF on pos s] by (simp add: section_call_def)
  with s show ?thesis by blast
next
  case False
  have s: "(i - 16) mod 16 < 16" by simp
  have "section_call p en i =
      rampower_call en (8 + of_nat ((i - 16) div 16)) (2 ^ (16 + (i - 16) mod 16))"
    using False single_bit_mask [OF on pos s] by (simp add: section_call_def)
  with s show ?thesis by blast
qed

lemmas eval_defs = ram_range_retain_def retain_loop.simps locate_section_def rampower_call_def
  geometry_defs EINVAL_def

lemma ram_range_retain_block_3:
  assumes fits: "sram_fits p" and al: "sram_aligned p" and inside: "in_sram p addr len"
    and h: "unat (sram0_reg_addr p) + 0x6000 \<le> unat addr \<and>
          unat addr < unat (sram0_reg_addr p) + 0x7000 \<and>
          unat (sram0_reg_addr p) + 0x7000 < unat addr + unat len \<and>
          unat addr + unat len \<le> unat (sram0_reg_addr p) + 0x8000"
  shows "ram_range_retain p addr len enable =
            Some (0, [rampower_call enable 3
                        (push_bit (unat (S0RETENTION_Pos p)) (S0RETENTION_On p)),
                      rampower_call enable 3
                        (push_bit (unat (1 + S0RETENTION_Pos p)) (S0RETENTION_On p))])"
proof -
  let ?b = "unat (sram0_reg_addr p)"
  note closed = ram_range_retain_sections [OF fits al inside, of enable]
  from h have "?b + 4096 * 6 \<le> unat addr" "unat addr < ?b + 4096 * Suc 6"
    by simp_all
  then have i: "section_index p (unat addr) = 6"
    by (rule section_index_small) simp
  from h have "?b + 28672 \<le> unat addr + unat len - 1"
    "unat addr + unat len - 1 < ?b + 32768"
    by linarith+
  then have "?b + 4096 * 7 \<le> unat addr + unat len - 1"
    "unat addr + unat len - 1 < ?b + 4096 * Suc 7"
    by simp_all
  then have j: "section_index p (unat addr + unat len - 1) = 7"
    by (rule section_index_small) simp
  have "[6 ..< Suc 7] = [6, 7 :: nat]" by (simp add: upt_rec)
  then show ?thesis
    unfolding closed i j by (simp add: section_call_values)
qed

lemma ram_range_retain_block_7_8:
  assumes fits: "sram_fits p" and al: "sram_aligned p" and inside: "in_sram p addr len"
    and h: "unat (sram0_reg_addr p) + 0xF000 \<le> unat addr \<and>
          unat addr < unat (sram0_reg_addr p) + 0x10000 \<and>
          unat (sram0_reg_addr p) + 0x10000 < unat addr + unat len \<and>
          unat addr + unat len \<le> unat (sram0_reg_addr p) + 0x18000"
  shows "ram_range_retain p addr len enable =
            Some (0, [rampower_call enable 7
                        (push_bit (unat (1 + S0RETENTION_Pos p)) (S0RETENTION_On p)),
                      rampower_call enable 8
                        (push_bit (unat (S0RETENTION_Pos p)) (S0RETENTION_On p))])"
proof -
  let ?b = "unat (sram0_reg_addr p)"
  note closed = ram_range_retain_sections [OF fits al inside, of enable]
  from h have "?b + 4096 * 15 \<le> unat addr" "unat addr < ?b + 4096 * Suc 15"
    by simp_all
  then have i: "section_index p (unat addr) = 15"
    by (rule section_index_small) simp
  from h have "?b + 65536 \<le> unat addr + unat len - 1"
    "unat addr + unat len - 1 < ?b + 98304"
    by linarith+
  then have "?b + 65536 + 32768 * 0 \<le> unat addr + unat len - 1"
    "unat addr + unat len - 1 < ?b + 65536 + 32768 * Suc 0"
    by simp_all
  then have "section_index p (unat addr + unat len - 1) = 16 + 0"
    by (rule section_index_large)
  then have j: "section_index p (unat addr + unat len - 1) = 16" by simp
  have "[15 ..< Suc 16] = [15, 16 :: nat]" by (simp add: upt_rec)
  then show ?thesis
    unfolding closed i j by (simp add: section_call_values)
qed

section \<open>Records\<close>

lemma length_le32_bytes: "length (le32_bytes w) = 4"
  by (simp add: le32_bytes_def)

lemma unat_checked_size:
  fixes off L :: u32
  assumes "unat off + 4 \<le> unat L"
  shows "unat (off + 4) = unat off + 4"
proof -
  have "unat L < 2 ^ 32" using unsigned_less [of L] by simp
  with assms have "unat off + unat (4 :: u32) < 2 ^ 32" by simp
  then show ?thesis by (simp add: unat_add_lem [THEN iffD1])
qed

lemma in_sram_prefix:
  assumes "in_sram p ptr L" and "unat off + 4 \<le> unat L"
  shows "in_sram p ptr (off + 4)"
  using assms unat_checked_size [OF assms(2)] by (simp add: in_sram_def)

text \<open>
  What validate does with a record whose length does not exceed \<open>SRAM_END\<close>: the
  flag and the bytes are decided by the CRC, the HAL calls are those of
  \<^verbatim>\<open>ram_range_retain\<close> on the checked bytes.
\<close>

lemma ram_retained_validate_returns:
  assumes fits: "sram_fits p" and le: "L \<le> SRAM_END p"
    and len: "length mem = unat L" and off: "unat off + 4 \<le> unat L"
  shows "\<exists>rc hw. ram_range_retain p ptr (off + 4) True = Some (rc, hw) \<and>
     ram_retained_validate p ptr mem L off 4 =
       Some (Inr (crc32_ieee (take (unat off + 4) mem) = residue,
                  if crc32_ieee (take (unat off + 4) mem) = residue then mem
                  else replicate (unat L) 0,
                  hw))"
proof -
  have "off + 4 \<le> L"
    using off unat_checked_size [OF off] by (simp add: word_le_nat_alt)
  with le have "off + 4 \<le> SRAM_END p" by simp
  from ram_range_retain_returns [OF fits this, of ptr True]
  obtain rc hw where r: "ram_range_retain p ptr (off + 4) True = Some (rc, hw)"
    by blast
  have "ram_retained_validate p ptr mem L off 4 =
       Some (Inr (crc32_ieee (take (unat off + 4) mem) = residue,
                  if crc32_ieee (take (unat off + 4) mem) = residue then mem
                  else replicate (unat L) 0,
                  hw))"
    using r len off unat_checked_size [OF off]
    by (simp add: ram_retained_validate_def Let_def)
  with r show ?thesis by blast
qed

lemma nrf52832_len_8: "(8 :: u32) \<le> SRAM_END nrf52832"
  by (simp add: SRAM_END_def SRAM_BEGIN_def nrf52832_def)

lemma crc32_ieee_zeros8: "crc32_ieee [0, 0, 0, 0, 0, 0, 0, 0] = 0x6522DF69"
  by (simp add: crc32_ieee_def crc32_byte_def crc32_shift_pow8 crc32_shift_def)

lemma crc32_ieee_five: "crc32_ieee [5, 0, 0, 0, 0x2E, 0x2F, 0x9A, 0x16] = 0x2144DF1C"
  by (simp add: crc32_ieee_def crc32_byte_def crc32_shift_pow8 crc32_shift_def)

lemma crc32_ieee_zeros12: "crc32_ieee [0, 0, 0, 0, 0, 0, 0, 0, 0, 0, 0, 0] \<noteq> residue"
  by (simp add: crc32_ieee_def crc32_byte_def crc32_shift_pow8 crc32_shift_def residue_def)

section \<open>Termination of the section walk\<close>

text \<open>
  C9: for every range that is not empty and lies inside the RAM, every iteration of the
  loop of \<^verbatim>\<open>ram_range_retain\<close> moves the address forward by
  \<open>section_size - addr mod section_size\<close>, which is at least 1, and the loop, hence
  the function, returns. The RAM is assumed to end at least one large section below
  the top of the address space (\<open>sram_fits\<close>), as it does on every nRF52.
\<close>

theorem section_walk_terminates:
  assumes fits: "sram_fits p" and inside: "in_sram p addr len"
  shows "(\<forall>a. addr \<le> a \<and> a < addr + len \<longrightarrow>
            (case locate_section p a of (block, section_mask, section_size) \<Rightarrow>
               1 \<le> unat (section_size - a mod section_size) \<and>
               a < a + (section_size - a mod section_size))) \<and>
         (\<exists>hw. retain_loop p enable (addr + len) addr [] = Some hw) \<and>
         (\<exists>hw. ram_range_retain p addr len enable = Some (0, hw))"
proof (intro conjI allI impI)
  fix a
  assume a: "addr \<le> a \<and> a < addr + len"
  then have "unat a + 32768 < 2 ^ 32"
    using in_sram_accepted(3) [OF fits inside] by (simp add: word_less_nat_alt)
  then show "case locate_section p a of (block, section_mask, section_size) \<Rightarrow>
               1 \<le> unat (section_size - a mod section_size) \<and>
               a < a + (section_size - a mod section_size)"
    by (rule next_section_step)
next
  show "\<exists>hw. retain_loop p enable (addr + len) addr [] = Some hw"
    using retain_loop_calls [OF in_sram_accepted(3) [OF fits inside]
        in_sram_accepted(2) [OF fits inside], of p]
    by blast
next
  show "\<exists>hw. ram_range_retain p addr len enable = Some (0, hw)"
    using ram_range_retain_in_sram [OF fits inside] by blast
qed

theorem section_walk_terminates_witness:
  "sram_fits nrf52832 \<and> in_sram nrf52832 0x20000ffa 16 \<and>
   (\<exists>hw. ram_range_retain nrf52832 0x20000ffa 16 True = Some (0, hw))"
proof -
  have i: "in_sram nrf52832 0x20000ffa 16"
    by (simp add: in_sram_def nrf52832_def)
  from section_walk_terminates [OF nrf52832_fits i, of True] nrf52832_fits i
  show ?thesis by blast
qed

section \<open>Enabling and disabling\<close>

text \<open>
  C10: for every range that is not empty and lies inside the RAM,
  \<^verbatim>\<open>ram_range_retain\<close> returns 0 with \<open>enable = true\<close> and with
  \<open>enable = false\<close>, and both calls pass the same sequence of (block, section mask)
  pairs to the HAL: the first through \<^verbatim>\<open>nrf_power_rampower_mask_on\<close>, the second
  through \<^verbatim>\<open>nrf_power_rampower_mask_off\<close>.
\<close>

theorem enable_disable_symmetry:
  assumes fits: "sram_fits p" and inside: "in_sram p addr len"
  shows "\<exists>cs. cs \<noteq> [] \<and>
     ram_range_retain p addr len True =
       Some (0, map (\<lambda>(block, section_mask). nrf_power_rampower_mask_on block section_mask) cs) \<and>
     ram_range_retain p addr len False =
       Some (0, map (\<lambda>(block, section_mask). nrf_power_rampower_mask_off block section_mask) cs)"
proof -
  from ram_range_retain_in_sram [OF fits inside]
  obtain cs where cs: "cs \<noteq> []"
    "\<And>enable. ram_range_retain p addr len enable =
        Some (0, map (\<lambda>(block, section_mask). rampower_call enable block section_mask) cs)"
    by blast
  from cs(2) [of True] cs(2) [of False] cs(1) show ?thesis
    by (auto simp add: rampower_call_def)
qed

theorem enable_disable_symmetry_witness:
  "sram_fits nrf52840 \<and> in_sram nrf52840 0x20006000 0x2000 \<and>
   (\<exists>cs. ram_range_retain nrf52840 0x20006000 0x2000 True =
       Some (0, map (\<lambda>(block, section_mask). nrf_power_rampower_mask_on block section_mask) cs) \<and>
     ram_range_retain nrf52840 0x20006000 0x2000 False =
       Some (0, map (\<lambda>(block, section_mask). nrf_power_rampower_mask_off block section_mask) cs))"
proof -
  have i: "in_sram nrf52840 0x20006000 0x2000"
    by (simp add: in_sram_def nrf52840_def)
  from enable_disable_symmetry [OF nrf52840_fits i] nrf52840_fits i
  show ?thesis by blast
qed

section \<open>The bounds check\<close>

text \<open>
  C5: a range whose end lies beyond the end of the RAM is to be rejected with
  \<open>-EINVAL\<close> and without any HAL call. On the nRF52832 the range that starts at
  \<open>0x20000000\<close> with length \<open>0xFFFFFFFF\<close> is not: \<open>SRAM_END - len\<close> wraps around,
  the check passes, one HAL call is issued and the function returns 0.
\<close>

theorem bounds_check_underflow:
  "unat (0x20000000 :: u32) + unat (0xFFFFFFFF :: u32) > unat (SRAM_END nrf52832) \<and>
   ram_range_retain nrf52832 0x20000000 0xFFFFFFFF True =
     Some (0, [nrf_power_rampower_mask_on 0 0x10000])"
  by (simp add: ram_range_retain_def retain_loop.simps locate_section_def rampower_call_def
      nrf52832_def geometry_defs)

section \<open>The calls issued for a range\<close>

text \<open>
  C1, as the spec states it, fails: for the range that covers both sections of small
  block 3 on the nRF52840 the function does not issue one call with a two-bit mask, it
  issues two calls for block 3, each with the bit of one section.
\<close>

theorem merged_mask_counterexample:
  "ram_range_retain nrf52840 0x20006000 0x2000 True =
     Some (0, [nrf_power_rampower_mask_on 3 0x10000, nrf_power_rampower_mask_on 3 0x20000])"
  by (simp add: eval_defs nrf52840_def)

text \<open>
  C1, amended: for every range that is not empty and lies inside the RAM,
  \<^verbatim>\<open>ram_range_retain\<close> returns 0 and issues exactly one HAL call per section
  touched, in ascending address order, each with the block index of the section and
  the mask of that one section (a single bit where \<open>S0RETENTION_On = 1\<close> and
  \<open>S0RETENTION_Pos = 16\<close>); sections of one block are not merged. With small
  sections of 4096 bytes, two to a block, and 8 small blocks: a range that starts in
  the first and ends in the second section of small block 3 yields two calls,
  \<open>(3, bit 0)\<close> and \<open>(3, bit 1)\<close>; a range that starts in the last section of
  block 7 and ends in the first large section yields exactly two calls,
  \<open>(7, bit 1)\<close> and \<open>(8, bit 0)\<close>, one per block.
\<close>

theorem one_call_per_section:
  assumes fits: "sram_fits p" and al: "sram_aligned p" and inside: "in_sram p addr len"
  shows "ram_range_retain p addr len enable =
           Some (0, map (section_call p enable)
             [section_index p (unat addr) ..< Suc (section_index p (unat addr + unat len - 1))]) \<and>
         (S0RETENTION_On p = 1 \<and> S0RETENTION_Pos p = 16 \<longrightarrow>
           (\<forall>i. \<exists>block s. s < 16 \<and>
              section_call p enable i = rampower_call enable block (2 ^ (16 + s)))) \<and>
         (unat (sram0_reg_addr p) + 0x6000 \<le> unat addr \<and>
          unat addr < unat (sram0_reg_addr p) + 0x7000 \<and>
          unat (sram0_reg_addr p) + 0x7000 < unat addr + unat len \<and>
          unat addr + unat len \<le> unat (sram0_reg_addr p) + 0x8000 \<longrightarrow>
          ram_range_retain p addr len enable =
            Some (0, [rampower_call enable 3
                        (push_bit (unat (S0RETENTION_Pos p)) (S0RETENTION_On p)),
                      rampower_call enable 3
                        (push_bit (unat (1 + S0RETENTION_Pos p)) (S0RETENTION_On p))])) \<and>
         (unat (sram0_reg_addr p) + 0xF000 \<le> unat addr \<and>
          unat addr < unat (sram0_reg_addr p) + 0x10000 \<and>
          unat (sram0_reg_addr p) + 0x10000 < unat addr + unat len \<and>
          unat addr + unat len \<le> unat (sram0_reg_addr p) + 0x18000 \<longrightarrow>
          ram_range_retain p addr len enable =
            Some (0, [rampower_call enable 7
                        (push_bit (unat (1 + S0RETENTION_Pos p)) (S0RETENTION_On p)),
                      rampower_call enable 8
                        (push_bit (unat (S0RETENTION_Pos p)) (S0RETENTION_On p))]))"
proof (intro conjI impI)
  show "ram_range_retain p addr len enable =
           Some (0, map (section_call p enable)
             [section_index p (unat addr) ..< Suc (section_index p (unat addr + unat len - 1))])"
    by (rule ram_range_retain_sections [OF fits al inside])
next
  assume "S0RETENTION_On p = 1 \<and> S0RETENTION_Pos p = 16"
  then show "\<forall>i. \<exists>block s. s < 16 \<and>
              section_call p enable i = rampower_call enable block (2 ^ (16 + s))"
    using section_call_single_bit [of p enable] by blast
next
  assume "unat (sram0_reg_addr p) + 0x6000 \<le> unat addr \<and>
          unat addr < unat (sram0_reg_addr p) + 0x7000 \<and>
          unat (sram0_reg_addr p) + 0x7000 < unat addr + unat len \<and>
          unat addr + unat len \<le> unat (sram0_reg_addr p) + 0x8000"
  then show "ram_range_retain p addr len enable =
            Some (0, [rampower_call enable 3
                        (push_bit (unat (S0RETENTION_Pos p)) (S0RETENTION_On p)),
                      rampower_call enable 3
                        (push_bit (unat (1 + S0RETENTION_Pos p)) (S0RETENTION_On p))])"
    by (rule ram_range_retain_block_3 [OF fits al inside])
next
  assume "unat (sram0_reg_addr p) + 0xF000 \<le> unat addr \<and>
          unat addr < unat (sram0_reg_addr p) + 0x10000 \<and>
          unat (sram0_reg_addr p) + 0x10000 < unat addr + unat len \<and>
          unat addr + unat len \<le> unat (sram0_reg_addr p) + 0x18000"
  then show "ram_range_retain p addr len enable =
            Some (0, [rampower_call enable 7
                        (push_bit (unat (1 + S0RETENTION_Pos p)) (S0RETENTION_On p)),
                      rampower_call enable 8
                        (push_bit (unat (S0RETENTION_Pos p)) (S0RETENTION_On p))])"
    by (rule ram_range_retain_block_7_8 [OF fits al inside])
qed

theorem one_call_per_section_witness:
  "sram_fits nrf52840 \<and> sram_aligned nrf52840 \<and>
   in_sram nrf52840 0x20006000 0x2000 \<and>
   ram_range_retain nrf52840 0x20006000 0x2000 False =
     Some (0, [nrf_power_rampower_mask_off 3 0x10000, nrf_power_rampower_mask_off 3 0x20000]) \<and>
   in_sram nrf52840 0x2000FFFF 2 \<and>
   ram_range_retain nrf52840 0x2000FFFF 2 True =
     Some (0, [nrf_power_rampower_mask_on 7 0x20000, nrf_power_rampower_mask_on 8 0x10000]) \<and>
   (\<forall>i. \<exists>block s. s < 16 \<and>
      section_call nrf52840 True i = rampower_call True block (2 ^ (16 + s)))"
proof -
  have al: "sram_aligned nrf52840"
    by (simp add: sram_aligned_def nrf52840_def)
  have i3: "in_sram nrf52840 0x20006000 0x2000"
    by (simp add: in_sram_def nrf52840_def)
  have i7: "in_sram nrf52840 0x2000FFFF 2"
    by (simp add: in_sram_def nrf52840_def)
  have c: "S0RETENTION_On nrf52840 = 1 \<and> S0RETENTION_Pos nrf52840 = 16"
    by (simp add: nrf52840_def)
  have h3: "unat (sram0_reg_addr nrf52840) + 0x6000 \<le> unat (0x20006000 :: u32) \<and>
          unat (0x20006000 :: u32) < unat (sram0_reg_addr nrf52840) + 0x7000 \<and>
          unat (sram0_reg_addr nrf52840) + 0x7000 < unat (0x20006000 :: u32) + unat (0x2000 :: u32) \<and>
          unat (0x20006000 :: u32) + unat (0x2000 :: u32) \<le> unat (sram0_reg_addr nrf52840) + 0x8000"
    by (simp add: nrf52840_def)
  have h7: "unat (sram0_reg_addr nrf52840) + 0xF000 \<le> unat (0x2000FFFF :: u32) \<and>
          unat (0x2000FFFF :: u32) < unat (sram0_reg_addr nrf52840) + 0x10000 \<and>
          unat (sram0_reg_addr nrf52840) + 0x10000 < unat (0x2000FFFF :: u32) + unat (2 :: u32) \<and>
          unat (0x2000FFFF :: u32) + unat (2 :: u32) \<le> unat (sram0_reg_addr nrf52840) + 0x18000"
    by (simp add: nrf52840_def)
  note t3 = one_call_per_section [OF nrf52840_fits al i3, of False]
  note t7 = one_call_per_section [OF nrf52840_fits al i7, of True]
  from t3 h3 have "ram_range_retain nrf52840 0x20006000 0x2000 False =
     Some (0, [rampower_call False 3
                 (push_bit (unat (S0RETENTION_Pos nrf52840)) (S0RETENTION_On nrf52840)),
               rampower_call False 3
                 (push_bit (unat (1 + S0RETENTION_Pos nrf52840)) (S0RETENTION_On nrf52840))])"
    by blast
  then have r3: "ram_range_retain nrf52840 0x20006000 0x2000 False =
     Some (0, [nrf_power_rampower_mask_off 3 0x10000, nrf_power_rampower_mask_off 3 0x20000])"
    by (simp add: rampower_call_def nrf52840_def)
  from t7 h7 have "ram_range_retain nrf52840 0x2000FFFF 2 True =
     Some (0, [rampower_call True 7
                 (push_bit (unat (1 + S0RETENTION_Pos nrf52840)) (S0RETENTION_On nrf52840)),
               rampower_call True 8
                 (push_bit (unat (S0RETENTION_Pos nrf52840)) (S0RETENTION_On nrf52840))])"
    by blast
  then have r7: "ram_range_retain nrf52840 0x2000FFFF 2 True =
     Some (0, [nrf_power_rampower_mask_on 7 0x20000, nrf_power_rampower_mask_on 8 0x10000])"
    by (simp add: rampower_call_def nrf52840_def)
  from t7 c have "\<forall>i. \<exists>block s. s < 16 \<and>
      section_call nrf52840 True i = rampower_call True block (2 ^ (16 + s))"
    by blast
  with nrf52840_fits al i3 r3 i7 r7 show ?thesis by blast
qed

section \<open>Updating a record\<close>

text \<open>
  C6: for every buffer and every offset with \<open>offset + 4\<close> inside the buffer,
  \<^verbatim>\<open>ram_retained_update\<close> computes the CRC-32 over the bytes before \<open>offset\<close>
  only, stores its four bytes at \<open>offset .. offset + 3\<close>, least significant byte
  first, and leaves every other byte of the buffer as it was.
\<close>

theorem update_stores_crc_little_endian:
  assumes off: "unat off + 4 \<le> length mem"
  shows "\<exists>mem'. ram_retained_update mem off = Inr mem' \<and>
     length mem' = length mem \<and>
     (\<forall>i < unat off. mem' ! i = mem ! i) \<and>
     mem' ! unat off = ucast (crc32_ieee (take (unat off) mem)) \<and>
     mem' ! (unat off + 1) = ucast (drop_bit 8 (crc32_ieee (take (unat off) mem))) \<and>
     mem' ! (unat off + 2) = ucast (drop_bit 16 (crc32_ieee (take (unat off) mem))) \<and>
     mem' ! (unat off + 3) = ucast (drop_bit 24 (crc32_ieee (take (unat off) mem))) \<and>
     (\<forall>i. unat off + 4 \<le> i \<and> i < length mem \<longrightarrow> mem' ! i = mem ! i)"
proof -
  let ?o = "unat off"
  let ?crc = "crc32_ieee (take ?o mem)"
  let ?mem' = "take ?o mem @ le32_bytes ?crc @ drop (?o + 4) mem"
  have u: "ram_retained_update mem off = Inr ?mem'"
    using off by (simp add: ram_retained_update_def Let_def)
  have lt: "length (take ?o mem) = ?o" using off by simp
  have l: "length ?mem' = length mem"
    using off by (simp add: length_le32_bytes)
  have pre: "\<forall>i < ?o. ?mem' ! i = mem ! i"
    using lt by (simp add: nth_append)
  have mid: "?mem' ! (?o + k) = le32_bytes ?crc ! k" if "k < 4" for k
    using that lt by (simp add: nth_append length_le32_bytes)
  have post: "\<forall>i. ?o + 4 \<le> i \<and> i < length mem \<longrightarrow> ?mem' ! i = mem ! i"
  proof (intro allI impI)
    fix i assume i: "?o + 4 \<le> i \<and> i < length mem"
    then have "?mem' ! i = (le32_bytes ?crc @ drop (?o + 4) mem) ! (i - ?o)"
      using lt by (simp add: nth_append)
    also have "\<dots> = drop (?o + 4) mem ! (i - ?o - 4)"
    proof -
      from i have "\<not> i - ?o < 4" by arith
      then show ?thesis by (simp add: nth_append length_le32_bytes)
    qed
    also have "\<dots> = mem ! i"
      using i by simp
    finally show "?mem' ! i = mem ! i" .
  qed
  from mid [of 0] mid [of 1] mid [of 2] mid [of 3]
  have "?mem' ! ?o = ucast ?crc" "?mem' ! (?o + 1) = ucast (drop_bit 8 ?crc)"
    "?mem' ! (?o + 2) = ucast (drop_bit 16 ?crc)" "?mem' ! (?o + 3) = ucast (drop_bit 24 ?crc)"
    by (simp_all add: le32_bytes_def)
  with u l pre post show ?thesis by blast
qed

theorem update_stores_crc_little_endian_witness:
  "unat (4 :: u32) + 4 \<le> length [5, 0, 0, 0, 0xAA, 0xBB, 0xCC, 0xDD :: u8] \<and>
   (\<exists>mem'. ram_retained_update [5, 0, 0, 0, 0xAA, 0xBB, 0xCC, 0xDD] 4 = Inr mem' \<and>
      length mem' = 8 \<and> mem' ! 0 = 5 \<and> mem' ! 4 = 0x2E \<and> mem' ! 5 = 0x2F \<and>
      mem' ! 6 = 0x9A \<and> mem' ! 7 = 0x16)"
proof -
  have h: "unat (4 :: u32) + 4 \<le> length [5, 0, 0, 0, 0xAA, 0xBB, 0xCC, 0xDD :: u8]"
    by simp
  have c: "crc32_ieee [5, 0, 0, 0] = 0x169A2F2E"
    by (simp add: crc32_ieee_def crc32_byte_def crc32_shift_pow8 crc32_shift_def)
  from update_stores_crc_little_endian [OF h]
  obtain mem' where m: "ram_retained_update [5, 0, 0, 0, 0xAA, 0xBB, 0xCC, 0xDD] 4 = Inr mem'"
    "length mem' = 8" "mem' ! 0 = 5"
    "mem' ! 4 = ucast (crc32_ieee [5, 0, 0, 0])"
    "mem' ! 5 = ucast (drop_bit 8 (crc32_ieee [5, 0, 0, 0]))"
    "mem' ! 6 = ucast (drop_bit 16 (crc32_ieee [5, 0, 0, 0]))"
    "mem' ! 7 = ucast (drop_bit 24 (crc32_ieee [5, 0, 0, 0]))"
    by fastforce
  from m(4-7) have "mem' ! 4 = 0x2E" "mem' ! 5 = 0x2F" "mem' ! 6 = 0x9A" "mem' ! 7 = 0x16"
    unfolding c by simp_all
  with h m(1-3) show ?thesis by blast
qed

section \<open>Validating a record\<close>

text \<open>
  C2, as the spec states it, fails: \<^verbatim>\<open>ram_retained_validate\<close> arms retention for the
  checked bytes, \<open>checksum_offset + 4\<close> of them, not for all \<open>L\<close> bytes of the record.
  For a record of 16 bytes with the checksum at offset 8 (an \<^verbatim>\<open>int64_t\<close> value, the
  checksum and four bytes of padding) that ends 4 bytes into the second section of
  the RAM, validate arms the first section only, while the 16-byte range touches both.
\<close>

theorem full_range_counterexample:
  "ram_retained_validate nrf52832 0x20000FF4 [0, 0, 0, 0, 0, 0, 0, 0, 0, 0, 0, 0, 0, 0, 0, 0] 16 8 4 =
     Some (Inr (False, [0, 0, 0, 0, 0, 0, 0, 0, 0, 0, 0, 0, 0, 0, 0, 0],
                [nrf_power_rampower_mask_on 0 0x10000])) \<and>
   ram_range_retain nrf52832 0x20000FF4 16 True =
     Some (0, [nrf_power_rampower_mask_on 0 0x10000, nrf_power_rampower_mask_on 0 0x20000])"
proof -
  have r: "replicate 16 (0 :: u8) = [0, 0, 0, 0, 0, 0, 0, 0, 0, 0, 0, 0, 0, 0, 0, 0]"
    by (simp add: eval_nat_numeral)
  have a: "ram_range_retain nrf52832 0x20000FF4 12 True =
     Some (0, [nrf_power_rampower_mask_on 0 0x10000])"
    by (simp add: eval_defs nrf52832_def)
  have b: "ram_range_retain nrf52832 0x20000FF4 16 True =
     Some (0, [nrf_power_rampower_mask_on 0 0x10000, nrf_power_rampower_mask_on 0 0x20000])"
    by (simp add: eval_defs nrf52832_def)
  have "ram_retained_validate nrf52832 0x20000FF4 [0, 0, 0, 0, 0, 0, 0, 0, 0, 0, 0, 0, 0, 0, 0, 0] 16 8 4 =
     Some (Inr (False, [0, 0, 0, 0, 0, 0, 0, 0, 0, 0, 0, 0, 0, 0, 0, 0],
                [nrf_power_rampower_mask_on 0 0x10000]))"
    using crc32_ieee_zeros12 by (simp add: ram_retained_validate_def a r)
  with b show ?thesis by simp
qed

text \<open>
  C2, amended: for every record of length \<open>L\<close> (not beyond \<open>SRAM_END\<close>) and every
  checksum offset with \<open>0 \<le> checksum_offset \<le> L - 4\<close>,
  \<^verbatim>\<open>ram_retained_validate\<close> calls \<^verbatim>\<open>ram_range_retain\<close> with \<open>enable = true\<close>
  on the first \<open>checksum_offset + 4\<close> bytes of the record before it returns, whether
  the record is valid or not; this is the whole record when
  \<open>checksum_offset = L - 4\<close>, and for a record inside the RAM the call returns 0 and
  reaches the hardware.
\<close>

theorem validate_retains_checked_range:
  assumes fits: "sram_fits p" and le: "L \<le> SRAM_END p"
    and len: "length mem = unat L" and off: "unat off + 4 \<le> unat L"
  shows "\<exists>rc hw. ram_range_retain p ptr (off + 4) True = Some (rc, hw) \<and>
     ram_retained_validate p ptr mem L off 4 =
       Some (Inr (crc32_ieee (take (unat off + 4) mem) = residue,
                  if crc32_ieee (take (unat off + 4) mem) = residue then mem
                  else replicate (unat L) 0,
                  hw)) \<and>
     (unat off + 4 = unat L \<longrightarrow> ram_range_retain p ptr L True = Some (rc, hw)) \<and>
     (in_sram p ptr L \<longrightarrow> rc = 0 \<and> hw \<noteq> [])"
proof -
  from ram_retained_validate_returns [OF fits le len off, of ptr]
  obtain rc hw where hw: "ram_range_retain p ptr (off + 4) True = Some (rc, hw)"
    "ram_retained_validate p ptr mem L off 4 =
       Some (Inr (crc32_ieee (take (unat off + 4) mem) = residue,
                  if crc32_ieee (take (unat off + 4) mem) = residue then mem
                  else replicate (unat L) 0,
                  hw))"
    by blast
  have full: "ram_range_retain p ptr L True = Some (rc, hw)" if "unat off + 4 = unat L"
  proof -
    from that unat_checked_size [OF off] have "off + 4 = L"
      by (simp add: word_unat_eq_iff)
    with hw(1) show ?thesis by simp
  qed
  have armed: "rc = 0 \<and> hw \<noteq> []" if "in_sram p ptr L"
    using ram_range_retain_in_sram [OF fits in_sram_prefix [OF that off]] hw(1) by auto
  from hw full armed show ?thesis by blast
qed

theorem validate_retains_checked_range_witness:
  "sram_fits nrf52832 \<and> (8 :: u32) \<le> SRAM_END nrf52832 \<and>
   in_sram nrf52832 0x20000100 8 \<and>
   length [0, 0, 0, 0, 0, 0, 0, 0 :: u8] = unat (8 :: u32) \<and>
   unat (4 :: u32) + 4 = unat (8 :: u32) \<and>
   (\<exists>valid mem' hw. hw \<noteq> [] \<and>
      ram_retained_validate nrf52832 0x20000100 [0, 0, 0, 0, 0, 0, 0, 0] 8 4 4 =
        Some (Inr (valid, mem', hw)) \<and>
      ram_range_retain nrf52832 0x20000100 8 True = Some (0, hw))"
proof -
  have i: "in_sram nrf52832 0x20000100 8"
    by (simp add: in_sram_def nrf52832_def)
  have l: "length [0, 0, 0, 0, 0, 0, 0, 0 :: u8] = unat (8 :: u32)" by simp
  have o: "unat (4 :: u32) + 4 \<le> unat (8 :: u32)" by simp
  have e: "unat (4 :: u32) + 4 = unat (8 :: u32)" by simp
  from validate_retains_checked_range [OF nrf52832_fits nrf52832_len_8 l o, of "0x20000100"]
    e i nrf52832_fits nrf52832_len_8 l
  show ?thesis by blast
qed

text \<open>
  C4: for every record of length \<open>L\<close> and every checksum offset with
  \<open>0 \<le> checksum_offset \<le> L - 4\<close> (\<open>L\<close> not beyond \<open>SRAM_END\<close>, so that the
  retention call returns wherever the record lies): when the CRC-32 over the first
  \<open>checksum_offset + 4\<close> bytes differs from the residue \<open>0x2144DF1C\<close>,
  \<^verbatim>\<open>ram_retained_validate\<close> returns false and all \<open>L\<close> bytes are zero afterwards;
  when it equals the residue, validate returns true and the bytes are unchanged.
\<close>

theorem validate_outcomes:
  assumes fits: "sram_fits p" and le: "L \<le> SRAM_END p"
    and len: "length mem = unat L" and off: "unat off + 4 \<le> unat L"
  shows "(crc32_ieee (take (unat off + 4) mem) \<noteq> residue \<longrightarrow>
           (\<exists>hw. ram_retained_validate p ptr mem L off 4 =
              Some (Inr (False, replicate (unat L) 0, hw)))) \<and>
         (crc32_ieee (take (unat off + 4) mem) = residue \<longrightarrow>
           (\<exists>hw. ram_retained_validate p ptr mem L off 4 = Some (Inr (True, mem, hw))))"
  using ram_retained_validate_returns [OF fits le len off, of ptr] by auto

theorem validate_outcomes_witness:
  "sram_fits nrf52832 \<and> (8 :: u32) \<le> SRAM_END nrf52832 \<and>
   crc32_ieee (take (unat (4 :: u32) + 4) [0, 0, 0, 0, 0, 0, 0, 0]) \<noteq> residue \<and>
   (\<exists>hw. ram_retained_validate nrf52832 0x20000100 [0, 0, 0, 0, 0, 0, 0, 0] 8 4 4 =
      Some (Inr (False, replicate (unat (8 :: u32)) 0, hw))) \<and>
   crc32_ieee (take (unat (4 :: u32) + 4) [5, 0, 0, 0, 0x2E, 0x2F, 0x9A, 0x16]) = residue \<and>
   (\<exists>hw. ram_retained_validate nrf52832 0x20000100 [5, 0, 0, 0, 0x2E, 0x2F, 0x9A, 0x16] 8 4 4 =
      Some (Inr (True, [5, 0, 0, 0, 0x2E, 0x2F, 0x9A, 0x16], hw)))"
proof -
  have o: "unat (4 :: u32) + 4 \<le> unat (8 :: u32)" by simp
  have l0: "length [0, 0, 0, 0, 0, 0, 0, 0 :: u8] = unat (8 :: u32)" by simp
  have l5: "length [5, 0, 0, 0, 0x2E, 0x2F, 0x9A, 0x16 :: u8] = unat (8 :: u32)" by simp
  have c0: "crc32_ieee (take (unat (4 :: u32) + 4) [0, 0, 0, 0, 0, 0, 0, 0]) \<noteq> residue"
    by (simp add: crc32_ieee_zeros8 residue_def)
  have c5: "crc32_ieee (take (unat (4 :: u32) + 4) [5, 0, 0, 0, 0x2E, 0x2F, 0x9A, 0x16]) = residue"
    by (simp add: crc32_ieee_five residue_def)
  from validate_outcomes [OF nrf52832_fits nrf52832_len_8 l0 o, of "0x20000100"]
    validate_outcomes [OF nrf52832_fits nrf52832_len_8 l5 o, of "0x20000100"]
    nrf52832_fits nrf52832_len_8 c0 c5
  show ?thesis by blast
qed

text \<open>
  C3: for every record of length \<open>L\<close>, whatever its bytes, and every checksum offset
  with \<open>0 \<le> checksum_offset \<le> L - 4\<close> (\<open>L\<close> not beyond \<open>SRAM_END\<close>),
  \<^verbatim>\<open>ram_retained_update\<close> followed by \<^verbatim>\<open>ram_retained_validate\<close> returns true, and
  validate leaves every byte as update left it.
\<close>

theorem update_then_validate:
  assumes fits: "sram_fits p" and le: "L \<le> SRAM_END p"
    and len: "length mem = unat L" and off: "unat off + 4 \<le> unat L"
  shows "\<exists>mem' hw. ram_retained_update mem off = Inr mem' \<and>
     ram_retained_validate p ptr mem' L off 4 = Some (Inr (True, mem', hw))"
proof -
  let ?o = "unat off"
  let ?crc = "crc32_ieee (take ?o mem)"
  let ?mem' = "take ?o mem @ le32_bytes ?crc @ drop (?o + 4) mem"
  have u: "ram_retained_update mem off = Inr ?mem'"
    using off len by (simp add: ram_retained_update_def Let_def)
  have l: "length ?mem' = unat L"
    using off len by (simp add: length_le32_bytes)
  have lt: "length (take ?o mem) = ?o" using off len by simp
  have "take (?o + 4) ?mem' = take ?o mem @ le32_bytes ?crc"
    using lt by (simp add: length_le32_bytes)
  then have "crc32_ieee (take (?o + 4) ?mem') = residue"
    by (simp only: crc32_residue)
  with ram_retained_validate_returns [OF fits le l off, of ptr] u
  show ?thesis by auto
qed

theorem update_then_validate_witness:
  "sram_fits nrf52832 \<and> (8 :: u32) \<le> SRAM_END nrf52832 \<and>
   length [5, 0, 0, 0, 0, 0, 0, 0 :: u8] = unat (8 :: u32) \<and> unat (4 :: u32) + 4 \<le> unat (8 :: u32) \<and>
   (\<exists>mem' hw. ram_retained_update [5, 0, 0, 0, 0, 0, 0, 0] 4 = Inr mem' \<and>
     ram_retained_validate nrf52832 0x20000100 mem' 8 4 4 = Some (Inr (True, mem', hw)))"
proof -
  have l: "length [5, 0, 0, 0, 0, 0, 0, 0 :: u8] = unat (8 :: u32)" by simp
  have o: "unat (4 :: u32) + 4 \<le> unat (8 :: u32)" by simp
  from update_then_validate [OF nrf52832_fits nrf52832_len_8 l o, of "0x20000100"]
    nrf52832_fits nrf52832_len_8 l o
  show ?thesis by blast
qed

text \<open>
  C7: for every record (of a length not beyond \<open>SRAM_END\<close>) whose CRC-32 over the
  first \<open>checksum_offset + 4\<close> bytes is the residue, two calls of \<^verbatim>\<open>ram_retained_validate\<close> in a row both return true,
  leave the bytes unchanged and issue the same HAL calls.
\<close>

theorem revalidation_idempotent:
  assumes fits: "sram_fits p" and le: "L \<le> SRAM_END p"
    and len: "length mem = unat L" and off: "unat off + 4 \<le> unat L"
    and clean: "crc32_ieee (take (unat off + 4) mem) = residue"
  shows "\<exists>mem1 hw1 mem2 hw2.
     ram_retained_validate p ptr mem L off 4 = Some (Inr (True, mem1, hw1)) \<and>
     ram_retained_validate p ptr mem1 L off 4 = Some (Inr (True, mem2, hw2)) \<and>
     mem1 = mem \<and> mem2 = mem \<and> hw2 = hw1"
  using ram_retained_validate_returns [OF fits le len off, of ptr] clean by auto

theorem revalidation_idempotent_witness:
  "sram_fits nrf52832 \<and> (8 :: u32) \<le> SRAM_END nrf52832 \<and>
   crc32_ieee (take (unat (4 :: u32) + 4) [5, 0, 0, 0, 0x2E, 0x2F, 0x9A, 0x16]) = residue \<and>
   (\<exists>mem1 hw1 mem2 hw2.
     ram_retained_validate nrf52832 0x20000100 [5, 0, 0, 0, 0x2E, 0x2F, 0x9A, 0x16] 8 4 4 =
       Some (Inr (True, mem1, hw1)) \<and>
     ram_retained_validate nrf52832 0x20000100 mem1 8 4 4 = Some (Inr (True, mem2, hw2)) \<and>
     mem1 = [5, 0, 0, 0, 0x2E, 0x2F, 0x9A, 0x16] \<and> mem2 = [5, 0, 0, 0, 0x2E, 0x2F, 0x9A, 0x16] \<and>
     hw2 = hw1)"
proof -
  have o: "unat (4 :: u32) + 4 \<le> unat (8 :: u32)" by simp
  have l5: "length [5, 0, 0, 0, 0x2E, 0x2F, 0x9A, 0x16 :: u8] = unat (8 :: u32)" by simp
  have c5: "crc32_ieee (take (unat (4 :: u32) + 4) [5, 0, 0, 0, 0x2E, 0x2F, 0x9A, 0x16]) = residue"
    by (simp add: crc32_ieee_five residue_def)
  from revalidation_idempotent [OF nrf52832_fits nrf52832_len_8 l5 o c5, of "0x20000100"]
    nrf52832_fits nrf52832_len_8 c5
  show ?thesis by blast
qed

text \<open>
  C8: for the record of 8 zero bytes with the checksum at offset 4, the CRC-32 over
  the 8 bytes is \<open>0x6522DF69\<close>, which is not the residue \<open>0x2144DF1C\<close>;
  \<^verbatim>\<open>ram_retained_validate\<close> returns false and the 8 bytes are zero afterwards,
  wherever the record lies.
\<close>

theorem cold_boot_zero_buffer:
  assumes fits: "sram_fits p" and le: "8 \<le> SRAM_END p"
  shows "crc32_ieee [0, 0, 0, 0, 0, 0, 0, 0] = 0x6522DF69 \<and> (0x6522DF69 :: u32) \<noteq> residue \<and>
     (\<exists>hw. ram_retained_validate p ptr [0, 0, 0, 0, 0, 0, 0, 0] 8 4 4 =
        Some (Inr (False, [0, 0, 0, 0, 0, 0, 0, 0], hw)))"
proof -
  have l: "length [0, 0, 0, 0, 0, 0, 0, 0 :: u8] = unat (8 :: u32)" by simp
  have o: "unat (4 :: u32) + 4 \<le> unat (8 :: u32)" by simp
  have "replicate 8 (0 :: u8) = [0, 0, 0, 0, 0, 0, 0, 0]"
    by (simp add: eval_nat_numeral)
  then have r: "replicate (unat (8 :: u32)) (0 :: u8) = [0, 0, 0, 0, 0, 0, 0, 0]"
    by simp
  have c: "crc32_ieee (take (unat (4 :: u32) + 4) [0, 0, 0, 0, 0, 0, 0, 0]) \<noteq> residue"
    by (simp add: crc32_ieee_zeros8 residue_def)
  from ram_retained_validate_returns [OF fits le l o, of ptr] c r
  have "\<exists>hw. ram_retained_validate p ptr [0, 0, 0, 0, 0, 0, 0, 0] 8 4 4 =
        Some (Inr (False, [0, 0, 0, 0, 0, 0, 0, 0], hw))"
    by auto
  then show ?thesis
    by (simp add: crc32_ieee_zeros8 residue_def)
qed

theorem cold_boot_zero_buffer_witness:
  "sram_fits nrf52832 \<and> (8 :: u32) \<le> SRAM_END nrf52832 \<and>
   (\<exists>hw. ram_retained_validate nrf52832 0x20000100 [0, 0, 0, 0, 0, 0, 0, 0] 8 4 4 =
        Some (Inr (False, [0, 0, 0, 0, 0, 0, 0, 0], hw)))"
proof -
  from cold_boot_zero_buffer [OF nrf52832_fits nrf52832_len_8, of "0x20000100"]
    nrf52832_fits nrf52832_len_8
  show ?thesis by blast
qed

end
